theory Spec2Isabelle
  imports Main
begin

section \<open>Strings\<close>

text \<open>
  A Python \<open>str\<close> is a sequence of code points. The model uses \<open>string\<close>, whose
  characters are the code points 0 to 255 (Latin-1, the first block of Unicode), so that
  \<open>length\<close> counts what Python's \<open>len\<close> counts. The two character classes the
  code relies on, \<open>str.isspace\<close> and the regular expression class \<open>\\w\<close>, are written
  out for this range from the Unicode character database.
\<close>

definition isspace :: "char \<Rightarrow> bool" where
  \<comment> \<open>\<open>str.isspace\<close>: TAB..CR, FS..US, SPACE, NEL, NBSP.\<close>
  "isspace c = (let n = (of_char c :: nat) in
     (9 \<le> n \<and> n \<le> 13) \<or> (28 \<le> n \<and> n \<le> 32) \<or> n = 133 \<or> n = 160)"

definition isalnum :: "char \<Rightarrow> bool" where
  \<comment> \<open>\<open>str.isalnum\<close>: letters, decimal digits, and the Latin-1 characters that are
      alphabetic, digit or numeric in Unicode.\<close>
  "isalnum c = (let n = (of_char c :: nat) in
     (48 \<le> n \<and> n \<le> 57) \<or> (65 \<le> n \<and> n \<le> 90) \<or> (97 \<le> n \<and> n \<le> 122) \<or>
     n = 170 \<or> n = 178 \<or> n = 179 \<or> n = 181 \<or> n = 185 \<or> n = 186 \<or>
     (188 \<le> n \<and> n \<le> 190) \<or> (192 \<le> n \<and> n \<le> 214) \<or> (216 \<le> n \<and> n \<le> 246) \<or>
     (248 \<le> n \<and> n \<le> 255))"

definition is_word :: "char \<Rightarrow> bool" where
  \<comment> \<open>the class \<open>\\w\<close> of \<open>re\<close> on \<open>str\<close> patterns: alphanumeric or underscore\<close>
  "is_word c = (isalnum c \<or> c = CHR ''_'')"

definition lstrip_chars :: "(char \<Rightarrow> bool) \<Rightarrow> string \<Rightarrow> string" where
  "lstrip_chars P s = dropWhile P s"

definition rstrip_chars :: "(char \<Rightarrow> bool) \<Rightarrow> string \<Rightarrow> string" where
  "rstrip_chars P s = rev (dropWhile P (rev s))"

definition strip_chars :: "(char \<Rightarrow> bool) \<Rightarrow> string \<Rightarrow> string" where
  "strip_chars P s = rstrip_chars P (lstrip_chars P s)"

definition strip :: "string \<Rightarrow> string" where
  \<comment> \<open>\<open>s.strip()\<close>\<close>
  "strip s = strip_chars isspace s"

section \<open>Name sanitizer\<close>

definition legal_char :: "char \<Rightarrow> bool" where
  \<comment> \<open>the complement of the class \<open>[^\\w\\-\\.]\<close>\<close>
  "legal_char c = (is_word c \<or> c = CHR ''-'' \<or> c = CHR ''.'')"

definition sub_illegal :: "string \<Rightarrow> string" where
  \<comment> \<open>\<open>re.sub(r'[^\\w\\-\\.]', '_', s)\<close>\<close>
  "sub_illegal s = map (\<lambda>c. if legal_char c then c else CHR ''_'') s"

function sub_underscores :: "string \<Rightarrow> string" where
  \<comment> \<open>\<open>re.sub(r'_+', '_', s)\<close>: every maximal run of underscores becomes one\<close>
  "sub_underscores [] = []"
| "sub_underscores (c # cs) =
     (if c = CHR ''_'' then CHR ''_'' # sub_underscores (dropWhile (\<lambda>d. d = CHR ''_'') cs)
      else c # sub_underscores cs)"
  by pat_completeness auto
termination
  by (relation "measure length") (auto simp: less_Suc_eq_le length_dropWhile_le)

type_synonym name_map = "string \<rightharpoonup> string"

definition sanitize_str :: "string \<Rightarrow> nat \<Rightarrow> string" where
  \<comment> \<open>the value \<open>s\<close> that \<open>sanitize_name\<close> computes\<close>
  "sanitize_str orig max_len =
     (let s = strip orig;
          s = sub_illegal s;
          s = sub_underscores s;
          s = rstrip_chars (\<lambda>c. c = CHR ''.'') (strip_chars (\<lambda>c. c = CHR ''_'') s);
          s = (if s = [] then ''obj'' else s)
      in take max_len s)"

definition sanitize_name_len :: "string \<Rightarrow> nat \<Rightarrow> name_map \<Rightarrow> string \<times> name_map" where
  \<comment> \<open>\<open>sanitize_name(orig, max_len)\<close>; the module-level \<open>_name_map\<close> is passed and returned\<close>
  "sanitize_name_len orig max_len nm =
     (let s = sanitize_str orig max_len
      in (s, if s \<noteq> orig then nm(orig \<mapsto> s) else nm))"

definition sanitize_name :: "string \<Rightarrow> name_map \<Rightarrow> string \<times> name_map" where
  \<comment> \<open>the default \<open>max_len=79\<close>, which every call site uses\<close>
  "sanitize_name orig nm = sanitize_name_len orig 79 nm"

section \<open>Built-in object names\<close>

definition BUILTIN_MAP :: "string \<rightharpoonup> string" where
  "BUILTIN_MAP = map_of [
     (''HTTP'', ''HTTP''),
     (''HTTPS'', ''HTTPS''),
     (''FTP'', ''FTP''),
     (''SSH'', ''SSH''),
     (''Remote Desktop'', ''RDP''),
     (''DNS (TCP)'', ''DNS''),
     (''DNS (TCP with SafeSearch)'', ''DNS''),
     (''NTP (TCP)'', ''NTP''),
     (''Kerberos'', ''Kerberos''),
     (''Kpasswd'', ''Kerberos''),
     (''LDAP (TCP)'', ''LDAP''),
     (''LDAPS (TCP)'', ''LDAPS''),
     (''LDAPS (with decryption)'', ''LDAPS''),
     (''Microsoft-DS'', ''Microsoft-DS''),
     (''Microsoft Global Catalog LDAP (TCP)'', ''LDAP''),
     (''Microsoft Global Catalog LDAPS (TCP)'', ''LDAPS''),
     (''SIP (TCP)'', ''SIP''),
     (''SIP Control (TCP)'', ''SIP''),
     (''SCCP'', ''SCCP''),
     (''HTTP (SafeSearch)'', ''HTTP''),
     (''IMAPS'', ''IMAPS''),
     (''DNS (UDP)'', ''DNS''),
     (''NTP (UDP)'', ''NTP''),
     (''LDAP (UDP)'', ''LDAP''),
     (''LDAPS (UDP)'', ''LDAPS''),
     (''NetBIOS Datagram'', ''NetBIOS''),
     (''SIP (UDP)'', ''SIP''),
     (''SIP Control (UDP)'', ''SIP''),
     (''TFTP'', ''TFTP''),
     (''Ping'', ''PING'')]"

section \<open>The parsed document\<close>

text \<open>
  An \<open>xml.etree.ElementTree.Element\<close>: tag, attribute dictionary (in document order),
  text (\<open>None\<close> when absent) and children. The extractor starts from the parsed root.
\<close>

datatype element =
  Element (tag: string) (attrib: "(string \<times> string) list") (etext: "string option")
    (children: "element list")

definition attrib_get :: "element \<Rightarrow> string \<Rightarrow> string \<Rightarrow> string" where
  \<comment> \<open>\<open>el.attrib.get(k, default)\<close>\<close>
  "attrib_get el k dflt = (case map_of (attrib el) k of None \<Rightarrow> dflt | Some v \<Rightarrow> v)"

fun iter :: "element \<Rightarrow> element list" where
  \<comment> \<open>\<open>el.iter()\<close>: the element itself, then its descendants, in document order\<close>
  "iter (Element t a x cs) = Element t a x cs # concat (map iter cs)"

definition iter_tag :: "element \<Rightarrow> string \<Rightarrow> element list" where
  \<comment> \<open>\<open>root.iter(t)\<close>\<close>
  "iter_tag root t = filter (\<lambda>e. tag e = t) (iter root)"

definition findall :: "element \<Rightarrow> string \<Rightarrow> element list" where
  \<comment> \<open>\<open>el.findall(t)\<close>: the direct children with tag \<open>t\<close>\<close>
  "findall el t = filter (\<lambda>c. tag c = t) (children el)"

definition find_child :: "element \<Rightarrow> string \<Rightarrow> element option" where
  \<comment> \<open>\<open>el.find(t)\<close>: the first direct child with tag \<open>t\<close>, or \<open>None\<close>\<close>
  "find_child el t = List.find (\<lambda>c. tag c = t) (children el)"

section \<open>Object extractor\<close>

text \<open>
  The dictionaries the extractor emits and the push endpoint reads. A key that a
  dictionary does not have is \<open>None\<close>.
\<close>

record item =
  orig_name :: "string option"
  name :: "string option"
  type_f :: "string option"
  subnet :: "string option"
  start_ip :: "string option"
  end_ip :: "string option"
  comment_f :: "string option"
  member_f :: "string list option"
  skipped_refs :: "string list option"
  protocol :: "string option"
  tcp_portrange :: "string option"
  udp_portrange :: "string option"

definition no_keys :: item where
  "no_keys = \<lparr>orig_name = None, name = None, type_f = None, subnet = None,
     start_ip = None, end_ip = None, comment_f = None, member_f = None,
     skipped_refs = None, protocol = None, tcp_portrange = None, udp_portrange = None\<rparr>"

definition xml_object_tags :: "string list" where
  "xml_object_tags = [''host'', ''network'', ''address_range'', ''group'',
     ''gen_service_group'', ''service_tcp'', ''service_udp'']"

definition register_name :: "element \<Rightarrow> string set \<times> name_map \<Rightarrow> string set \<times> name_map" where
  \<comment> \<open>the body of the loops of pass 1\<close>
  "register_name el st =
     (let n = strip (attrib_get el ''name'' '''')
      in if n \<noteq> [] then (insert n (fst st), snd (sanitize_name n (snd st))) else st)"

definition build_registry :: "element \<Rightarrow> string set \<times> name_map" where
  \<comment> \<open>pass 1: \<open>xml_names\<close> and \<open>_name_map\<close>, both starting empty\<close>
  "build_registry root =
     fold (\<lambda>t st. fold register_name (iter_tag root t) st) xml_object_tags ({}, Map.empty)"

definition nm_get :: "name_map \<Rightarrow> string \<Rightarrow> string" where
  \<comment> \<open>\<open>_name_map.get(orig, orig)\<close>\<close>
  "nm_get nm orig = (case nm orig of None \<Rightarrow> orig | Some s \<Rightarrow> s)"

definition resolve :: "string set \<times> name_map \<Rightarrow> string \<Rightarrow> string option" where
  "resolve reg ref =
     (if ref \<in> fst reg then Some (nm_get (snd reg) ref)
      else (case BUILTIN_MAP ref of Some b \<Rightarrow> Some b | None \<Rightarrow> None))"

fun dedup_seen :: "'a set \<Rightarrow> 'a list \<Rightarrow> 'a list" where
  \<comment> \<open>\<open>[m for m in members if not (m in seen or seen.add(m))]\<close>\<close>
  "dedup_seen seen [] = []"
| "dedup_seen seen (m # ms) =
     (if m \<in> seen then dedup_seen seen ms else m # dedup_seen (insert m seen) ms)"

definition dedup :: "'a list \<Rightarrow> 'a list" where
  \<comment> \<open>\<open>seen = set()\<close>, then the comprehension\<close>
  "dedup members = dedup_seen {} members"

definition host_step :: "name_map \<Rightarrow> element \<Rightarrow> item list \<Rightarrow> item list" where
  "host_step nm el hosts =
     (let ip = (case find_child el ''mvia_address'' of
                  Some ip_el \<Rightarrow> strip (attrib_get ip_el ''address'' '''')
                | None \<Rightarrow> '''')
      in if ip = [] then hosts
         else let orig = strip (attrib_get el ''name'' '''')
              in hosts @ [no_keys\<lparr>orig_name := Some orig, name := Some (nm_get nm orig),
                   type_f := Some ''ipmask'', subnet := Some (ip @ '' 255.255.255.255''),
                   comment_f := Some (take 255 (attrib_get el ''comment'' ''''))\<rparr>])"

definition network_step ::
  "(string \<Rightarrow> (string \<times> string) option) \<Rightarrow> name_map \<Rightarrow> element \<Rightarrow> item list \<Rightarrow> item list" where
  \<comment> \<open>\<open>ipv4_network net\<close> stands for \<open>ipaddress.IPv4Network(net, strict=False)\<close>: the
      strings of the network address and of the netmask, or \<open>None\<close> when it raises\<close>
  "network_step ipv4_network nm el networks =
     (let net = strip (attrib_get el ''ipv4_network'' '''')
      in if CHR ''/'' \<notin> set net then networks
         else (case ipv4_network net of
                 None \<Rightarrow> networks
               | Some (ip, netmask) \<Rightarrow>
                   let orig = strip (attrib_get el ''name'' '''')
                   in networks @ [no_keys\<lparr>orig_name := Some orig, name := Some (nm_get nm orig),
                        type_f := Some ''ipmask'', subnet := Some (ip @ '' '' @ netmask),
                        comment_f := Some (take 255 (attrib_get el ''comment'' ''''))\<rparr>]))"

definition range_step :: "name_map \<Rightarrow> element \<Rightarrow> item list \<Rightarrow> item list" where
  "range_step nm el addr_ranges =
     (let r = strip (attrib_get el ''ip_range'' '''')
      in if CHR ''-'' \<notin> set r then addr_ranges
         else let start = strip (takeWhile (\<lambda>c. c \<noteq> CHR ''-'') r);
                  endp = strip (tl (dropWhile (\<lambda>c. c \<noteq> CHR ''-'') r));
                  orig = strip (attrib_get el ''name'' '''')
              in addr_ranges @ [no_keys\<lparr>orig_name := Some orig, name := Some (nm_get nm orig),
                   type_f := Some ''iprange'', start_ip := Some start, end_ip := Some endp\<rparr>])"

definition collect_ref ::
  "(string \<Rightarrow> string option) \<Rightarrow> element \<Rightarrow> string list \<times> string list \<Rightarrow> string list \<times> string list" where
  \<comment> \<open>the body of the loop over a group's member elements: \<open>(members, skipped)\<close>\<close>
  "collect_ref res ne acc =
     (let ref = strip (attrib_get ne ''ref'' '''')
      in if ref = [] then acc
         else (case res ref of
                 Some resolved \<Rightarrow> (fst acc @ [resolved], snd acc)
               | None \<Rightarrow> (fst acc, snd acc @ [ref])))"

definition group_step ::
  "string set \<times> name_map \<Rightarrow> string \<Rightarrow> element \<Rightarrow> item list \<Rightarrow> item list" where
  \<comment> \<open>the body of the loops of sections 4 (\<open>child_tag = ne_list\<close>) and 6
      (\<open>child_tag = service_ref\<close>), which are the same code\<close>
  "group_step reg child_tag el groups =
     (let orig = strip (attrib_get el ''name'' '''');
          acc = fold (collect_ref (resolve reg)) (findall el child_tag) ([], []);
          members = dedup (fst acc);
          skipped = snd acc
      in if members = [] then groups
         else groups @ [no_keys\<lparr>orig_name := Some orig, name := Some (nm_get (snd reg) orig),
                member_f := Some members, skipped_refs := Some skipped\<rparr>])"

definition port_range :: "string \<Rightarrow> string \<Rightarrow> string" where
  \<comment> \<open>\<open>f"{min_p}-{max_p}" if max_p and max_p != min_p else min_p\<close>\<close>
  "port_range min_p max_p =
     (if max_p \<noteq> [] \<and> max_p \<noteq> min_p then min_p @ ''-'' @ max_p else min_p)"

definition service_tcp_step :: "name_map \<Rightarrow> element \<Rightarrow> item list \<Rightarrow> item list" where
  "service_tcp_step nm el services =
     (let min_p = strip (attrib_get el ''min_dst_port'' '''');
          max_p = strip (attrib_get el ''max_dst_port'' min_p)
      in if min_p = [] then services
         else let pr = port_range min_p max_p;
                  orig = strip (attrib_get el ''name'' '''')
              in services @ [no_keys\<lparr>orig_name := Some orig, name := Some (nm_get nm orig),
                   protocol := Some ''TCP'', tcp_portrange := Some pr,
                   comment_f := Some (take 255 (attrib_get el ''comment'' ''''))\<rparr>])"

definition service_udp_step :: "name_map \<Rightarrow> element \<Rightarrow> item list \<Rightarrow> item list" where
  "service_udp_step nm el services =
     (let min_p = strip (attrib_get el ''min_dst_port'' '''');
          max_p = strip (attrib_get el ''max_dst_port'' min_p)
      in if min_p = [] then services
         else let pr = port_range min_p max_p;
                  orig = strip (attrib_get el ''name'' '''')
              in services @ [no_keys\<lparr>orig_name := Some orig, name := Some (nm_get nm orig),
                   protocol := Some ''UDP'', udp_portrange := Some pr,
                   comment_f := Some (take 255 (attrib_get el ''comment'' ''''))\<rparr>])"

record extracted =
  hosts :: "item list"
  networks :: "item list"
  addr_ranges :: "item list"
  net_groups :: "item list"
  services :: "item list"
  service_groups :: "item list"
  name_map_f :: name_map

definition extract_objects ::
  "(string \<Rightarrow> (string \<times> string) option) \<Rightarrow> element \<Rightarrow> extracted" where
  "extract_objects ipv4_network root =
     (let reg = build_registry root;
          nm = snd reg
      in \<lparr>hosts = fold (host_step nm) (iter_tag root ''host'') [],
          networks = fold (network_step ipv4_network nm) (iter_tag root ''network'') [],
          addr_ranges = fold (range_step nm) (iter_tag root ''address_range'') [],
          net_groups = fold (group_step reg ''ne_list'') (iter_tag root ''group'') [],
          services = fold (service_udp_step nm) (iter_tag root ''service_udp'')
                       (fold (service_tcp_step nm) (iter_tag root ''service_tcp'') []),
          service_groups =
            fold (group_step reg ''service_ref'') (iter_tag root ''gen_service_group'') [],
          name_map_f = nm\<rparr>)"

section \<open>Remote object store client\<close>

text \<open>
  A payload is the JSON object sent to the remote store; a member list
  \<open>[{'name': m} for m in ...]\<close> is kept as the list of the names.
\<close>

datatype pval = PStr string | PMembers "string list"

type_synonym payload = "(string \<times> pval) list"

datatype call = GetExisting string | Post string payload | Put string string payload

text \<open>The exceptions the push endpoint can meet, and \<open>str(e)\<close>.\<close>

datatype exn = KeyError string | RequestError string

definition str_exn :: "exn \<Rightarrow> string" where
  "str_exn e = (case e of KeyError k \<Rightarrow> [CHR 0x27] @ k @ [CHR 0x27] | RequestError m \<Rightarrow> m)"

text \<open>
  The remote store is outside the program: what it answers to a call may depend on all
  the calls made before. \<open>Inl\<close> is an exception raised by the transport.
\<close>

record server =
  names_reply :: "call list \<Rightarrow> string \<Rightarrow> exn + string set"
  status_reply :: "call list \<Rightarrow> call \<Rightarrow> exn + (int \<times> string)"

text \<open>The methods of \<open>FGClient\<close>; the list of the calls made so far is passed and returned.\<close>

definition get_existing :: "server \<Rightarrow> string \<Rightarrow> call list \<Rightarrow> (exn + string set) \<times> call list" where
  "get_existing srv ep log = (names_reply srv log ep, log @ [GetExisting ep])"

definition post :: "server \<Rightarrow> string \<Rightarrow> payload \<Rightarrow> call list \<Rightarrow> (exn + (int \<times> string)) \<times> call list" where
  "post srv ep pl log =
     ((case status_reply srv log (Post ep pl) of
         Inl e \<Rightarrow> Inl e
       | Inr (status_code, txt) \<Rightarrow> Inr (status_code, take 400 txt)),
      log @ [Post ep pl])"

definition put :: "server \<Rightarrow> string \<Rightarrow> string \<Rightarrow> payload \<Rightarrow> call list \<Rightarrow> (exn + (int \<times> string)) \<times> call list" where
  "put srv ep nm pl log =
     ((case status_reply srv log (Put ep nm pl) of
         Inl e \<Rightarrow> Inl e
       | Inr (status_code, txt) \<Rightarrow> Inr (status_code, take 400 txt)),
      log @ [Put ep nm pl])"

definition upsert ::
  "server \<Rightarrow> string \<Rightarrow> string \<Rightarrow> payload \<Rightarrow> string set \<Rightarrow> call list \<Rightarrow> (exn + (int \<times> string)) \<times> call list" where
  "upsert srv ep nm pl existing log =
     (if nm \<in> existing then put srv ep nm pl log else post srv ep pl log)"

definition EP :: "string \<rightharpoonup> string" where
  "EP = map_of [
     (''hosts'', ''firewall/address''),
     (''networks'', ''firewall/address''),
     (''addr_ranges'', ''firewall/address''),
     (''net_groups'', ''firewall/addrgrp''),
     (''services'', ''firewall.service/custom''),
     (''service_groups'', ''firewall.service/group'')]"

section \<open>Push orchestrator\<close>

text \<open>
  The messages of the result entries: \<open>'Empty name'\<close>, the notice that a reference was
  skipped from the group of the given name, \<open>'Unknown type'\<close>, \<open>f'HTTP {code}: {txt}'\<close>
  and the text of an exception.
\<close>

datatype msg = EmptyName | SkippedFromGroup string | UnknownType | HttpError int string | ExcText string

datatype outcome =
  Outcome (status: string) (rname: string) (rorig: string) (rcode: "int option") (rmsg: "msg option")

datatype built = Raised exn | Unknown | Built payload "outcome list"

definition skipped_outcomes :: "string \<Rightarrow> item \<Rightarrow> outcome list" where
  \<comment> \<open>one skip entry for every reference in \<open>item.get('skipped_refs', [])\<close>\<close>
  "skipped_outcomes nm it =
     map (\<lambda>ref. Outcome ''skip'' ref ref None (Some (SkippedFromGroup nm)))
       (case skipped_refs it of None \<Rightarrow> [] | Some refs \<Rightarrow> refs)"

definition build_payload :: "string \<Rightarrow> string \<Rightarrow> item \<Rightarrow> built" where
  \<comment> \<open>the chain of branches on \<open>obj_type\<close> inside the inner \<open>try\<close>: the payload and the
      skip entries appended on the way, or the exception raised, or the final
      \<open>else\<close> branch\<close>
  "build_payload obj_type nm it =
     (if obj_type \<in> {''hosts'', ''networks'', ''addr_ranges''} then
        (let pl = [(''name'', PStr nm),
                   (''comment'', PStr (take 255 (case comment_f it of None \<Rightarrow> '''' | Some c \<Rightarrow> c)))]
         in if type_f it = Some ''ipmask'' then
              (case subnet it of
                 None \<Rightarrow> Raised (KeyError ''subnet'')
               | Some s \<Rightarrow> Built (pl @ [(''type'', PStr ''ipmask''), (''subnet'', PStr s)]) [])
            else if type_f it = Some ''iprange'' then
              (case start_ip it of
                 None \<Rightarrow> Raised (KeyError ''start-ip'')
               | Some a \<Rightarrow>
                   (case end_ip it of
                      None \<Rightarrow> Raised (KeyError ''end-ip'')
                    | Some b \<Rightarrow>
                        Built (pl @ [(''type'', PStr ''iprange''), (''start-ip'', PStr a),
                                     (''end-ip'', PStr b)]) []))
            else Built pl [])
      else if obj_type = ''net_groups'' then
        Built [(''name'', PStr nm),
               (''member'', PMembers (case member_f it of None \<Rightarrow> [] | Some ms \<Rightarrow> ms))]
          (skipped_outcomes nm it)
      else if obj_type = ''services'' then
        (case protocol it of
           None \<Rightarrow> Raised (KeyError ''protocol'')
         | Some p \<Rightarrow>
             (let pl = [(''name'', PStr nm), (''protocol'', PStr p),
                        (''comment'', PStr (take 255 (case comment_f it of None \<Rightarrow> '''' | Some c \<Rightarrow> c)))]
              in if p = ''TCP''
                 then Built (pl @ [(''tcp-portrange'',
                        PStr (case tcp_portrange it of None \<Rightarrow> '''' | Some r \<Rightarrow> r))]) []
                 else Built (pl @ [(''udp-portrange'',
                        PStr (case udp_portrange it of None \<Rightarrow> '''' | Some r \<Rightarrow> r))]) []))
      else if obj_type = ''service_groups'' then
        Built [(''name'', PStr nm),
               (''member'', PMembers (case member_f it of None \<Rightarrow> [] | Some ms \<Rightarrow> ms))]
          (skipped_outcomes nm it)
      else Unknown)"

type_synonym push_state = "string set \<times> outcome list \<times> call list"

definition push_item :: "server \<Rightarrow> string \<Rightarrow> string \<Rightarrow> item \<Rightarrow> push_state \<Rightarrow> push_state" where
  \<comment> \<open>the body of \<open>for item in items\<close>, on \<open>(existing, results, calls made)\<close>\<close>
  "push_item srv obj_type ep it st =
     (case st of (existing, results, log) \<Rightarrow>
        let nm = strip (case name it of None \<Rightarrow> '''' | Some n \<Rightarrow> n);
            orig = (case orig_name it of None \<Rightarrow> nm | Some orig_n \<Rightarrow> orig_n)
        in if nm = [] then
             (existing, results @ [Outcome ''skip'' '''' '''' None (Some EmptyName)], log)
           else
             (case build_payload obj_type nm it of
                Raised e \<Rightarrow>
                  (existing,
                   results @ [Outcome ''err'' nm orig None (Some (ExcText (take 150 (str_exn e))))],
                   log)
              | Unknown \<Rightarrow>
                  (existing, results @ [Outcome ''skip'' nm orig None (Some UnknownType)], log)
              | Built pl skips \<Rightarrow>
                  (case upsert srv ep nm pl existing log of
                     (Inl e, log') \<Rightarrow>
                       (existing,
                        results @ skips @
                          [Outcome ''err'' nm orig None (Some (ExcText (take 150 (str_exn e))))],
                        log')
                   | (Inr (code, txt), log') \<Rightarrow>
                       if code \<in> {200, 201, 204} then
                         (insert nm existing,
                          results @ skips @ [Outcome ''ok'' nm orig (Some code) None],
                          log')
                       else
                         (existing,
                          results @ skips @
                            [Outcome ''err'' nm orig None (Some (HttpError code (take 150 txt)))],
                          log'))))"

datatype response = Error int string | Results "outcome list"

definition fg_push ::
  "server \<Rightarrow> bool \<Rightarrow> string \<Rightarrow> item list \<Rightarrow> call list \<Rightarrow> response \<times> call list" where
  \<comment> \<open>\<open>connected\<close> is \<open>_fg\<close> being set\<close>
  "fg_push srv connected obj_type items log =
     (if \<not> connected then (Error 400 ''Not connected to FortiGate'', log)
      else (case EP obj_type of
              None \<Rightarrow> (Error 400 (''Unknown obj_type: '' @ obj_type), log)
            | Some ep \<Rightarrow>
                (case get_existing srv ep log of
                   (Inl e, log') \<Rightarrow> (Error 500 (str_exn e), log')
                 | (Inr existing, log') \<Rightarrow>
                     (case fold (push_item srv obj_type ep) items (existing, [], log') of
                        (existing', results, log'') \<Rightarrow> (Results results, log'')))))"

section \<open>Tree flattener\<close>









definition child_count :: "element \<Rightarrow> string \<Rightarrow> nat" where
  \<comment> \<open>the \<open>defaultdict(int)\<close> after \<open>for child in el: child_count[child.tag] += 1\<close>\<close>
  "child_count el = fold (\<lambda>child cnt. cnt(tag child := cnt (tag child) + 1)) (children el) (\<lambda>t. 0)"
















section \<open>Notions used to state the properties\<close>

definition names_of :: "element list \<Rightarrow> string list" where
  \<comment> \<open>the trimmed, non-empty \<open>name\<close> attributes of the elements, in order\<close>
  "names_of els =
     filter (\<lambda>n. n \<noteq> []) (map (\<lambda>el. strip (attrib_get el ''name'' '''')) els)"

definition xml_names :: "element \<Rightarrow> string list" where
  \<comment> \<open>the original names that pass 1 collects\<close>
  "xml_names root = concat (map (\<lambda>t. names_of (iter_tag root t)) xml_object_tags)"

definition member_refs :: "element \<Rightarrow> string \<Rightarrow> string list" where
  \<comment> \<open>the member references of a group element: the trimmed, non-empty \<open>ref\<close>
      attributes of its children with the given tag, in document order\<close>
  "member_refs el child_tag =
     filter (\<lambda>ref. ref \<noteq> [])
       (map (\<lambda>ne. strip (attrib_get ne ''ref'' '''')) (findall el child_tag))"


definition scenario3_group :: element where
  \<comment> \<open>a group referring to \<open>WebSrv\<close>, \<open>DNS (TCP)\<close> and \<open>GhostObj\<close>\<close>
  "scenario3_group = Element ''group'' [(''name'', ''Grp'')] None
     [Element ''ne_list'' [(''ref'', ''WebSrv'')] None [],
      Element ''ne_list'' [(''ref'', ''DNS (TCP)'')] None [],
      Element ''ne_list'' [(''ref'', ''GhostObj'')] None []]"

definition scenario3 :: element where
  \<comment> \<open>a document with the host \<open>WebSrv\<close> and that group\<close>
  "scenario3 = Element ''root'' [] None
     [Element ''host'' [(''name'', ''WebSrv'')] None
        [Element ''mvia_address'' [(''address'', ''10.0.0.1'')] None []],
      scenario3_group]"

definition no_networks :: "string \<Rightarrow> (string \<times> string) option" where
  \<comment> \<open>an address parser that rejects every string; the documents of the examples have no
      network elements\<close>
  "no_networks net = None"


definition reg_ok :: "string set \<times> name_map \<Rightarrow> bool" where
  \<comment> \<open>the registry maps exactly the collected names that sanitizing changes, each to its
      sanitized form\<close>
  "reg_ok reg = ([] \<notin> fst reg \<and> (\<forall>n. snd reg n =
      (if n \<in> fst reg \<and> sanitize_str n 79 \<noteq> n then Some (sanitize_str n 79) else None)))"

definition http_alt :: element where
  \<comment> \<open>a TCP service with a minimum destination port and no maximum\<close>
  "http_alt = Element ''service_tcp'' [(''name'', ''HTTP-alt''), (''min_dst_port'', ''8080'')] None []"

definition is_get :: "call \<Rightarrow> bool" where
  "is_get c = (case c of GetExisting ep \<Rightarrow> True | _ \<Rightarrow> False)"

definition item_name :: "item \<Rightarrow> string" where
  \<comment> \<open>the canonical name the push reads from a record: \<open>item.get('name','').strip()\<close>\<close>
  "item_name it = strip (case name it of None \<Rightarrow> '''' | Some n \<Rightarrow> n)"

definition item_orig :: "item \<Rightarrow> string" where
  \<comment> \<open>\<open>item.get('orig_name', name)\<close>\<close>
  "item_orig it = (case orig_name it of None \<Rightarrow> item_name it | Some orig_n \<Rightarrow> orig_n)"

definition creates :: "string \<Rightarrow> call \<Rightarrow> bool" where
  \<comment> \<open>the call creates an object of the given name\<close>
  "creates n c = (case c of Post ep pl \<Rightarrow> map_of pl ''name'' = Some (PStr n) | _ \<Rightarrow> False)"

definition upsert_call :: "string \<Rightarrow> string \<Rightarrow> payload \<Rightarrow> string set \<Rightarrow> call" where
  \<comment> \<open>the call that \<open>upsert\<close> makes: an update when the name is in the set, else a create\<close>
  "upsert_call ep nm pl existing = (if nm \<in> existing then Put ep nm pl else Post ep pl)"

definition post_free :: "string set \<Rightarrow> call list \<Rightarrow> bool" where
  \<comment> \<open>none of the calls fetches the existing names or creates an object whose name is in
      the set\<close>
  "post_free ex new = (\<forall>c\<in>set new. \<not> is_get c \<and> (\<forall>n\<in>ex. \<not> creates n c))"

definition carries_fields :: "string \<Rightarrow> item \<Rightarrow> bool" where
  \<comment> \<open>the record has the keys that the payload of its category reads with \<open>item[...]\<close>\<close>
  "carries_fields obj_type it =
     (if obj_type \<in> {''hosts'', ''networks'', ''addr_ranges''} then
        (type_f it = Some ''ipmask'' \<longrightarrow> subnet it \<noteq> None) \<and>
        (type_f it = Some ''iprange'' \<longrightarrow> start_ip it \<noteq> None \<and> end_ip it \<noteq> None)
      else if obj_type = ''services'' then protocol it \<noteq> None
      else True)"

definition category :: "string \<Rightarrow> extracted \<Rightarrow> item list" where
  \<comment> \<open>the records of the extraction result under the given key\<close>
  "category obj_type x =
     (if obj_type = ''hosts'' then hosts x
      else if obj_type = ''networks'' then networks x
      else if obj_type = ''addr_ranges'' then addr_ranges x
      else if obj_type = ''net_groups'' then net_groups x
      else if obj_type = ''services'' then services x
      else if obj_type = ''service_groups'' then service_groups x
      else [])"


definition accepting_server :: server where
  \<comment> \<open>an empty store that accepts every call\<close>
  "accepting_server =
     \<lparr>names_reply = (\<lambda>log ep. Inr {}), status_reply = (\<lambda>log c. Inr (200, ''done''))\<rparr>"

definition host_item :: "string \<Rightarrow> string \<Rightarrow> item" where
  \<comment> \<open>a host record as the extractor emits it\<close>
  "host_item orig nm =
     no_keys\<lparr>orig_name := Some orig, name := Some nm, type_f := Some ''ipmask'',
       subnet := Some ''10.0.0.1 255.255.255.255'', comment_f := Some []\<rparr>"

definition broken_item :: item where
  \<comment> \<open>a dictionary that says it is an \<open>ipmask\<close> address and has no \<open>subnet\<close> key\<close>
  "broken_item = no_keys\<lparr>name := Some ''x'', type_f := Some ''ipmask''\<rparr>"

definition host_payload :: "string \<Rightarrow> payload" where
  \<comment> \<open>the payload built for \<open>host_item orig nm\<close>\<close>
  "host_payload nm =
     [(''name'', PStr nm), (''comment'', PStr []), (''type'', PStr ''ipmask''),
      (''subnet'', PStr ''10.0.0.1 255.255.255.255'')]"





definition orig_of :: "element \<Rightarrow> string" where
  \<comment> \<open>the trimmed \<open>name\<close> attribute of an element, empty when there is none\<close>
  "orig_of el = strip (attrib_get el ''name'' '''')"








definition service_gate :: "element \<Rightarrow> bool" where
  "service_gate el = (strip (attrib_get el ''min_dst_port'' '''') \<noteq> [])"

definition port_of :: "element \<Rightarrow> string" where
  \<comment> \<open>the port range that the service loops compute for an element\<close>
  "port_of el =
     port_range (strip (attrib_get el ''min_dst_port'' ''''))
       (strip (attrib_get el ''max_dst_port'' (strip (attrib_get el ''min_dst_port'' ''''))))"

definition service_fields ::
  "item list \<Rightarrow> (string option \<times> string option \<times> string option \<times> string option) list" where
  \<comment> \<open>\<open>orig_name\<close>, \<open>protocol\<close>, \<open>tcp-portrange\<close> and \<open>udp-portrange\<close> of the records\<close>
  "service_fields rs = map (\<lambda>r. (orig_name r, protocol r, tcp_portrange r, udp_portrange r)) rs"

definition ok_names :: "outcome list \<Rightarrow> string set" where
  \<comment> \<open>the names of the outcomes with status \<open>ok\<close>\<close>
  "ok_names rs = set (map rname (filter (\<lambda>oc. status oc = ''ok'') rs))"

definition own_outcome :: "server \<Rightarrow> call list \<Rightarrow> call \<Rightarrow> item \<Rightarrow> outcome" where
  \<comment> \<open>the outcome recorded for a record after the call made for it, by the reply\<close>
  "own_outcome srv log c it =
     (case status_reply srv log c of
        Inl e \<Rightarrow>
          Outcome ''err'' (item_name it) (item_orig it) None (Some (ExcText (take 150 (str_exn e))))
      | Inr (code, txt) \<Rightarrow>
          if code \<in> {200, 201, 204}
          then Outcome ''ok'' (item_name it) (item_orig it) (Some code) None
          else Outcome ''err'' (item_name it) (item_orig it) None
                 (Some (HttpError code (take 150 (take 400 txt)))))"

definition services_doc :: element where
  \<comment> \<open>a document whose only object is the service \<open>http_alt\<close>\<close>
  "services_doc = Element ''root'' [] None [http_alt]"

definition bare :: "element \<Rightarrow> element" where
  \<comment> \<open>an element cut down to its tag and attributes\<close>
  "bare g = Element (tag g) (attrib g) None []"

definition shallow :: "element \<Rightarrow> element" where
  \<comment> \<open>an element whose children are cut down to their tags and attributes\<close>
  "shallow c = Element (tag c) (attrib c) (etext c) (map bare (children c))"

definition prune :: "element \<Rightarrow> element" where
  \<comment> \<open>the element with every instance of a grouped tag made shallow\<close>
  "prune el =
     Element (tag el) (attrib el) (etext el)
       (map (\<lambda>c. if 1 < child_count el (tag c) then shallow c else c) (children el))"


section \<open>Properties of the strings\<close>

lemmas sanitize_defs =
  sanitize_name_def sanitize_name_len_def sanitize_str_def strip_def strip_chars_def
  rstrip_chars_def lstrip_chars_def sub_illegal_def legal_char_def is_word_def isalnum_def
  isspace_def Let_def

lemma dropWhile_fixed: "xs = [] \<or> \<not> P (hd xs) \<Longrightarrow> dropWhile P xs = xs"
  by (cases xs) auto

lemma rstrip_chars_idem: "rstrip_chars P (rstrip_chars P s) = rstrip_chars P s"
  by (simp add: rstrip_chars_def)

lemma hd_rstrip_chars: "rstrip_chars P u \<noteq> [] \<Longrightarrow> hd (rstrip_chars P u) = hd u"
  unfolding rstrip_chars_def
  by (metis Nil_is_rev_conv dropWhile_eq_Nil_conv dropWhile_last hd_rev last_rev)

lemma strip_chars_idem: "strip_chars P (strip_chars P s) = strip_chars P s"
proof -
  let ?u = "dropWhile P s"
  let ?t = "rstrip_chars P ?u"
  have "?t = [] \<or> \<not> P (hd ?t)"
  proof (cases "?t = []")
    case True
    then show ?thesis by simp
  next
    case False
    then have "hd ?t = hd ?u" by (rule hd_rstrip_chars)
    moreover have "?u \<noteq> []"
    proof
      assume e: "?u = []"
      have "?t = []" unfolding e by (simp add: rstrip_chars_def)
      with False show False by simp
    qed
    then have "\<not> P (hd ?u)" by (rule hd_dropWhile)
    ultimately show ?thesis by simp
  qed
  then have "dropWhile P ?t = ?t" by (rule dropWhile_fixed)
  then show ?thesis
    by (simp add: strip_chars_def lstrip_chars_def rstrip_chars_idem)
qed

lemma strip_idem: "strip (strip s) = strip s"
  by (simp add: strip_def strip_chars_idem)



section \<open>Properties of the sanitizer\<close>







lemma fst_sanitize_name: "fst (sanitize_name x nm) = sanitize_str x 79"
  by (simp add: sanitize_name_def sanitize_name_len_def Let_def)

text \<open>
  C1. The sanitizer's output is meant to satisfy the naming grammar of the target system,
  which includes that it ends neither with an underscore nor with a period. The code strips
  the underscores before the trailing periods and truncates after both: the name
  \<open>Srv (old).\<close> becomes \<open>Srv_old_\<close>, which ends with an underscore, and a name of 80
  characters whose 79th is a period keeps that period at its end.
\<close>

theorem sanitize_name_trailing_underscore:
  "fst (sanitize_name ''Srv (old).'' nm) = ''Srv_old_''
   \<and> fst (sanitize_name ''a_.'' nm) = ''a_''
   \<and> fst (sanitize_name ''aaaaaaaaaaaaaaaaaaaaaaaaaaaaaaaaaaaaaaaaaaaaaaaaaaaaaaaaaaaaaaaaaaaaaaaaaaaaaa.b'' nm) = ''aaaaaaaaaaaaaaaaaaaaaaaaaaaaaaaaaaaaaaaaaaaaaaaaaaaaaaaaaaaaaaaaaaaaaaaaaaaaaa.''"
  by (simp add: sanitize_defs)

text \<open>
  C2. Sanitizing twice is meant to give the same as sanitizing once. On the name
  \<open>Srv (old).\<close> the first pass returns \<open>Srv_old_\<close> and the second pass returns
  \<open>Srv_old\<close>.
\<close>

theorem sanitize_name_not_idempotent:
  "fst (sanitize_name ''Srv (old).'' nm) = ''Srv_old_''
   \<and> fst (sanitize_name (fst (sanitize_name ''Srv (old).'' nm)) nm') = ''Srv_old''
   \<and> fst (sanitize_name (fst (sanitize_name ''Srv (old).'' nm)) nm')
       \<noteq> fst (sanitize_name ''Srv (old).'' nm)"
  by (simp add: sanitize_defs)

section \<open>De-duplication of group members\<close>

lemma dedup_seen_index:
  "dedup_seen S ms =
     map (\<lambda>i. ms ! i) (filter (\<lambda>i. ms ! i \<notin> S \<union> set (take i ms)) [0..<length ms])"
proof (induction ms arbitrary: S)
  case Nil
  show ?case by simp
next
  case (Cons m ms)
  have up: "[0..<length (m # ms)] = 0 # map Suc [0..<length ms]"
    by (simp add: upt_conv_Cons map_Suc_upt del: upt_Suc)
  show ?case
  proof (cases "m \<in> S")
    case True
    then have eq: "(\<lambda>x. ms ! x \<notin> S \<and> ms ! x \<noteq> m \<and> ms ! x \<notin> set (take x ms)) =
        (\<lambda>i. ms ! i \<notin> S \<and> ms ! i \<notin> set (take i ms))" by auto
    from True show ?thesis
      unfolding up by (simp add: Cons.IH filter_map comp_def eq)
  next
    case False
    then show ?thesis
      unfolding up by (simp add: Cons.IH filter_map comp_def conj_ac)
  qed
qed

lemma dedup_seen_set: "set (dedup_seen S ms) = set ms - S"
  by (induction ms arbitrary: S) auto

lemma dedup_seen_distinct: "distinct (dedup_seen S ms)"
  by (induction ms arbitrary: S) (auto simp: dedup_seen_set)

lemma count_list_distinct: "distinct xs \<Longrightarrow> count_list xs x = (if x \<in> set xs then 1 else 0)"
  by (induction xs) auto

lemma dedup_Nil_iff: "dedup ms = [] \<longleftrightarrow> ms = []"
  using dedup_seen_set[of "{}" ms] by (auto simp: dedup_def)

text \<open>
  C7. De-duplication keeps, in their order, exactly the entries of the member list that
  are first occurrences (entry \<open>i\<close> is kept when it does not occur among the entries
  before it), so every member of the input occurs exactly once in the output; the list
  A, B, A, C, B becomes A, B, C.
\<close>

theorem dedup_first_occurrence:
  "dedup ms = map (\<lambda>i. ms ! i) (filter (\<lambda>i. ms ! i \<notin> set (take i ms)) [0..<length ms])
   \<and> count_list (dedup ms) x = (if x \<in> set ms then 1 else 0)
   \<and> dedup [''A'', ''B'', ''A'', ''C'', ''B''] = [''A'', ''B'', ''C'']"
proof (intro conjI)
  show "dedup ms = map (\<lambda>i. ms ! i) (filter (\<lambda>i. ms ! i \<notin> set (take i ms)) [0..<length ms])"
    by (simp add: dedup_def dedup_seen_index)
  show "count_list (dedup ms) x = (if x \<in> set ms then 1 else 0)"
    by (simp add: dedup_def count_list_distinct dedup_seen_distinct dedup_seen_set)
  show "dedup [''A'', ''B'', ''A'', ''C'', ''B''] = [''A'', ''B'', ''C'']"
    by (simp add: dedup_def)
qed

section \<open>Properties of the registry and the resolver\<close>

lemma fold_invariant:
  "P s \<Longrightarrow> (\<And>x s. x \<in> set xs \<Longrightarrow> P s \<Longrightarrow> P (f x s)) \<Longrightarrow> P (fold f xs s)"
  by (induction xs arbitrary: s) auto

lemma reg_ok_register: "reg_ok st \<Longrightarrow> reg_ok (register_name el st)"
  by (auto simp: reg_ok_def register_name_def Let_def sanitize_name_def sanitize_name_len_def)

lemma reg_ok_build: "reg_ok (build_registry root)"
  unfolding build_registry_def
proof (rule fold_invariant[where P = reg_ok])
  show "reg_ok ({}, Map.empty)" by (simp add: reg_ok_def)
next
  fix t s
  assume "reg_ok s"
  then show "reg_ok (fold register_name (iter_tag root t) s)"
    by (rule fold_invariant[where P = reg_ok]) (rule reg_ok_register)
qed

lemma nm_get_in: "reg_ok reg \<Longrightarrow> n \<in> fst reg \<Longrightarrow> nm_get (snd reg) n = sanitize_str n 79"
  by (auto simp: reg_ok_def nm_get_def)


lemma fst_fold_register: "fst (fold register_name els st) = fst st \<union> set (names_of els)"
  by (induction els arbitrary: st) (auto simp: names_of_def register_name_def Let_def)

lemma fst_fold_tags:
  "fst (fold (\<lambda>t st. fold register_name (iter_tag root t) st) ts st)
     = fst st \<union> set (concat (map (\<lambda>t. names_of (iter_tag root t)) ts))"
  by (induction ts arbitrary: st) (auto simp: fst_fold_register)

lemma fst_build_registry: "fst (build_registry root) = set (xml_names root)"
  by (simp add: build_registry_def fst_fold_tags xml_names_def)

lemma resolve_eq:
  "resolve (build_registry root) ref =
     (if ref \<in> set (xml_names root) then Some (sanitize_str ref 79) else BUILTIN_MAP ref)"
  using nm_get_in[OF reg_ok_build, of ref root]
  by (auto simp: resolve_def fst_build_registry split: option.splits)

lemmas strip_eval = strip_def strip_chars_def rstrip_chars_def lstrip_chars_def isspace_def Let_def

lemma xml_names_sc3: "xml_names scenario3 = [''WebSrv'', ''Grp'']"
  by (simp add: xml_names_def xml_object_tags_def names_of_def iter_tag_def scenario3_def scenario3_group_def attrib_get_def strip_eval)

lemma collect_fold:
  "fold (collect_ref res) nes acc =
     (fst acc @ List.map_filter res (filter (\<lambda>r. r \<noteq> []) (map (\<lambda>ne. strip (attrib_get ne ''ref'' [])) nes)),
      snd acc @ filter (\<lambda>r. res r = None) (filter (\<lambda>r. r \<noteq> []) (map (\<lambda>ne. strip (attrib_get ne ''ref'' [])) nes)))"
proof (induction nes arbitrary: acc)
  case Nil
  show ?case by (simp add: List.map_filter_simps)
next
  case (Cons ne nes)
  let ?r = "strip (attrib_get ne ''ref'' [])"
  have unroll: "fold (collect_ref res) (ne # nes) acc = fold (collect_ref res) nes (collect_ref res ne acc)"
    by (simp only: fold_simps o_apply)
  consider (blank) "?r = []" | (miss) "?r \<noteq> []" "res ?r = None"
    | (hit) v where "?r \<noteq> []" "res ?r = Some v"
    by (cases "res ?r") auto
  then show ?case
  proof cases
    case blank
    then have "collect_ref res ne acc = acc" by (simp add: collect_ref_def)
    with blank show ?thesis unfolding unroll Cons.IH by (simp add: List.map_filter_simps)
  next
    case miss
    then have "collect_ref res ne acc = (fst acc, snd acc @ [?r])" by (simp add: collect_ref_def)
    with miss show ?thesis unfolding unroll Cons.IH by (simp add: List.map_filter_simps)
  next
    case hit
    then have "collect_ref res ne acc = (fst acc @ [v], snd acc)" by (simp add: collect_ref_def)
    with hit show ?thesis unfolding unroll Cons.IH by (simp add: List.map_filter_simps)
  qed
qed

lemma map_filter_Nil_iff: "List.map_filter f xs = [] \<longleftrightarrow> (\<forall>x\<in>set xs. f x = None)"
  by (induction xs) (auto simp: List.map_filter_simps split: option.splits)

lemma group_step_eq:
  "group_step reg ct el groups =
     (if \<exists>r\<in>set (member_refs el ct). resolve reg r \<noteq> None
      then groups @ [no_keys\<lparr>orig_name := Some (strip (attrib_get el ''name'' '''')),
             name := Some (nm_get (snd reg) (strip (attrib_get el ''name'' ''''))),
             member_f := Some (dedup (List.map_filter (resolve reg) (member_refs el ct))),
             skipped_refs := Some (filter (\<lambda>r. resolve reg r = None) (member_refs el ct))\<rparr>]
      else groups)"
  by (auto simp: group_step_def Let_def collect_fold member_refs_def dedup_Nil_iff map_filter_Nil_iff)

lemma sc3_iter: "iter_tag scenario3 ''group'' = [scenario3_group]"
  by (simp add: iter_tag_def scenario3_def scenario3_group_def)

lemma sc3_refs: "member_refs scenario3_group ''ne_list'' = [''WebSrv'', ''DNS (TCP)'', ''GhostObj'']"
  by (simp add: member_refs_def findall_def scenario3_group_def attrib_get_def strip_eval)

lemma sc3_name: "strip (attrib_get scenario3_group ''name'' []) = ''Grp''"
  by (simp add: scenario3_group_def attrib_get_def strip_eval)

lemma sc3_san: "sanitize_str ''WebSrv'' 79 = ''WebSrv''" "sanitize_str ''Grp'' 79 = ''Grp''"
  by (simp_all add: sanitize_defs)

lemma sc3_builtin: "BUILTIN_MAP ''DNS (TCP)'' = Some ''DNS''" "BUILTIN_MAP ''GhostObj'' = None"
  by (simp_all add: BUILTIN_MAP_def)

lemma sc3_resolve:
  "resolve (build_registry scenario3) ''WebSrv'' = Some ''WebSrv''"
  "resolve (build_registry scenario3) ''DNS (TCP)'' = Some ''DNS''"
  "resolve (build_registry scenario3) ''GhostObj'' = None"
  by (simp_all add: resolve_eq xml_names_sc3 sc3_san sc3_builtin)

lemma sc3_groups:
  "net_groups (extract_objects ipv4 scenario3) =
     [no_keys\<lparr>orig_name := Some ''Grp'', name := Some ''Grp'',
        member_f := Some [''WebSrv'', ''DNS''], skipped_refs := Some [''GhostObj'']\<rparr>]"
proof -
  have nm: "nm_get (snd (build_registry scenario3)) ''Grp'' = ''Grp''"
    using nm_get_in[OF reg_ok_build, of "''Grp''" scenario3]
    by (simp add: fst_build_registry xml_names_sc3 sc3_san)
  show ?thesis
    by (simp add: extract_objects_def Let_def sc3_iter group_step_eq sc3_refs sc3_name sc3_resolve nm
          List.map_filter_simps dedup_def)
qed

text \<open>
  C3. A reference resolves in three steps. If it is one of the original names collected
  by the first pass over the document (the trimmed, non-empty names of the elements with
  the seven object tags), the result is that name's sanitized form. Otherwise, if it is a
  key of the built-in table, the result is the table's entry. Otherwise there is no result.
  In the document with the host \<open>WebSrv\<close> and a group referring to \<open>WebSrv\<close>,
  \<open>DNS (TCP)\<close> and \<open>GhostObj\<close>, the group's record has the members \<open>WebSrv\<close>, \<open>DNS\<close>
  and the skipped reference \<open>GhostObj\<close>.
\<close>

theorem resolve_decision_order:
  "resolve (build_registry root) ref =
     (if ref \<in> fst (build_registry root) then Some (fst (sanitize_name ref Map.empty))
      else if ref \<in> dom BUILTIN_MAP then BUILTIN_MAP ref
      else None)
   \<and> fst (build_registry root) = set (xml_names root)
   \<and> net_groups (extract_objects ipv4 scenario3) =
       [no_keys\<lparr>orig_name := Some ''Grp'', name := Some ''Grp'',
          member_f := Some [''WebSrv'', ''DNS''], skipped_refs := Some [''GhostObj'']\<rparr>]"
proof (intro conjI)
  show "resolve (build_registry root) ref =
     (if ref \<in> fst (build_registry root) then Some (fst (sanitize_name ref Map.empty))
      else if ref \<in> dom BUILTIN_MAP then BUILTIN_MAP ref
      else None)"
    by (auto simp: resolve_eq fst_build_registry fst_sanitize_name)
  show "fst (build_registry root) = set (xml_names root)"
    by (rule fst_build_registry)
  show "net_groups (extract_objects ipv4 scenario3) =
       [no_keys\<lparr>orig_name := Some ''Grp'', name := Some ''Grp'',
          member_f := Some [''WebSrv'', ''DNS''], skipped_refs := Some [''GhostObj'']\<rparr>]"
    by (rule sc3_groups)
qed

theorem resolve_decision_order_witness:
  "resolve (build_registry scenario3) ''WebSrv'' = Some ''WebSrv''
   \<and> resolve (build_registry scenario3) ''DNS (TCP)'' = Some ''DNS''
   \<and> resolve (build_registry scenario3) ''GhostObj'' = None"
  using resolve_decision_order[of scenario3 "''WebSrv''" no_networks]
        resolve_decision_order[of scenario3 "''DNS (TCP)''" no_networks]
        resolve_decision_order[of scenario3 "''GhostObj''" no_networks]
  by (simp add: xml_names_sc3 fst_sanitize_name sc3_san sc3_builtin dom_def)

lemma fold_cond_append:
  assumes "\<And>x acc. f x acc = (if P x then acc @ [g x] else acc)"
  shows "fold f xs acc = acc @ map g (filter P xs)"
  by (induction xs arbitrary: acc) (simp_all add: assms)

lemma fold_group_step:
  "fold (group_step reg ct) els acc =
     acc @ map (\<lambda>el. no_keys\<lparr>orig_name := Some (strip (attrib_get el ''name'' [])),
             name := Some (nm_get (snd reg) (strip (attrib_get el ''name'' []))),
             member_f := Some (dedup (List.map_filter (resolve reg) (member_refs el ct))),
             skipped_refs := Some (filter (\<lambda>r. resolve reg r = None) (member_refs el ct))\<rparr>)
       (filter (\<lambda>el. \<exists>r\<in>set (member_refs el ct). resolve reg r \<noteq> None) els)"
  by (rule fold_cond_append) (rule group_step_eq)

text \<open>
  C5. Processing a group element appends a record exactly when one of its member
  references resolves; the record's \<open>skipped_refs\<close> are the references that do not
  resolve, as they stand and in their order, and its members are the resolved ones,
  de-duplicated. Nothing else can happen: the step is a total function. So the address
  groups (and likewise the service groups) of an extraction correspond, in document order,
  to the group elements with at least one resolved reference.
\<close>

theorem group_emitted_iff_member_resolved:
  fixes ipv4 root
  defines "reg \<equiv> build_registry root"
  defines "x \<equiv> extract_objects ipv4 root"
  shows
  "group_step reg ct el groups =
     (if \<exists>r\<in>set (member_refs el ct). resolve reg r \<noteq> None
      then groups @ [no_keys\<lparr>orig_name := Some (strip (attrib_get el ''name'' [])),
             name := Some (nm_get (snd reg) (strip (attrib_get el ''name'' []))),
             member_f := Some (dedup (List.map_filter (resolve reg) (member_refs el ct))),
             skipped_refs := Some (filter (\<lambda>r. resolve reg r = None) (member_refs el ct))\<rparr>]
      else groups)
   \<and> map skipped_refs (net_groups x) =
       map (\<lambda>el. Some (filter (\<lambda>r. resolve reg r = None) (member_refs el ''ne_list'')))
         (filter (\<lambda>el. \<exists>r\<in>set (member_refs el ''ne_list''). resolve reg r \<noteq> None)
            (iter_tag root ''group''))
   \<and> map skipped_refs (service_groups x) =
       map (\<lambda>el. Some (filter (\<lambda>r. resolve reg r = None) (member_refs el ''service_ref'')))
         (filter (\<lambda>el. \<exists>r\<in>set (member_refs el ''service_ref''). resolve reg r \<noteq> None)
            (iter_tag root ''gen_service_group''))"
  by (simp add: group_step_eq x_def reg_def extract_objects_def Let_def fold_group_step no_keys_def comp_def)

theorem group_emitted_iff_member_resolved_witness:
  "group_step (build_registry scenario3) ''ne_list'' scenario3_group [] =
     [no_keys\<lparr>orig_name := Some ''Grp'', name := Some ''Grp'',
        member_f := Some [''WebSrv'', ''DNS''], skipped_refs := Some [''GhostObj'']\<rparr>]
   \<and> map skipped_refs (net_groups (extract_objects no_networks scenario3)) = [Some [''GhostObj'']]
   \<and> map skipped_refs (service_groups (extract_objects no_networks scenario3)) = []"
proof -
  have nm: "nm_get (snd (build_registry scenario3)) ''Grp'' = ''Grp''"
    using nm_get_in[OF reg_ok_build, of "''Grp''" scenario3]
    by (simp add: fst_build_registry xml_names_sc3 sc3_san)
  have it: "iter_tag scenario3 ''gen_service_group'' = []"
    by (simp add: iter_tag_def scenario3_def scenario3_group_def)
  show ?thesis
    using group_emitted_iff_member_resolved[of scenario3 "''ne_list''" scenario3_group "[]" no_networks]
    by (simp add: sc3_iter it sc3_refs sc3_name sc3_resolve nm List.map_filter_simps dedup_def)
qed

section \<open>Names of the emitted records\<close>






section \<open>Properties of the push\<close>

lemma payload_name: "build_payload ot nm it = Built pl sk \<Longrightarrow> map_of pl ''name'' = Some (PStr nm)"
  by (auto simp: build_payload_def Let_def split: if_splits option.splits)

lemma push_item_empty:
  "item_name it = [] \<Longrightarrow>
     push_item srv ot ep it (ex, res, log) =
       (ex, res @ [Outcome ''skip'' [] [] None (Some EmptyName)], log)"
  by (simp add: push_item_def item_name_def Let_def)

lemma push_item_raised:
  "item_name it \<noteq> [] \<Longrightarrow> build_payload ot (item_name it) it = Raised e \<Longrightarrow>
     push_item srv ot ep it (ex, res, log) =
       (ex, res @ [Outcome ''err'' (item_name it) (item_orig it) None
                     (Some (ExcText (take 150 (str_exn e))))], log)"
  by (auto simp: push_item_def item_name_def item_orig_def Let_def split: option.splits)

lemma push_item_unknown:
  "item_name it \<noteq> [] \<Longrightarrow> build_payload ot (item_name it) it = Unknown \<Longrightarrow>
     push_item srv ot ep it (ex, res, log) =
       (ex, res @ [Outcome ''skip'' (item_name it) (item_orig it) None (Some UnknownType)], log)"
  by (auto simp: push_item_def item_name_def item_orig_def Let_def split: option.splits)

lemma push_item_built:
  assumes "item_name it \<noteq> []" and "build_payload ot (item_name it) it = Built pl skips"
  shows "push_item srv ot ep it (ex, res, log) =
     (case status_reply srv log (upsert_call ep (item_name it) pl ex) of
        Inl e \<Rightarrow>
          (ex, res @ skips @ [Outcome ''err'' (item_name it) (item_orig it) None
                                (Some (ExcText (take 150 (str_exn e))))],
           log @ [upsert_call ep (item_name it) pl ex])
      | Inr (code, txt) \<Rightarrow>
          if code \<in> {200, 201, 204}
          then (insert (item_name it) ex,
                res @ skips @ [Outcome ''ok'' (item_name it) (item_orig it) (Some code) None],
                log @ [upsert_call ep (item_name it) pl ex])
          else (ex, res @ skips @ [Outcome ''err'' (item_name it) (item_orig it) None
                                     (Some (HttpError code (take 150 (take 400 txt))))],
                log @ [upsert_call ep (item_name it) pl ex]))"
  using assms
  by (auto simp: push_item_def item_name_def item_orig_def Let_def upsert_def put_def post_def
         upsert_call_def split: sum.splits prod.splits option.splits)

lemma push_item_calls:
  assumes "push_item srv ot ep it (ex, res, log) = (ex', res', log')"
  shows "ex \<subseteq> ex' \<and> (\<exists>new. log' = log @ new \<and> post_free ex new)"
proof (cases "item_name it = []")
  case True
  with assms show ?thesis by (simp add: push_item_empty post_free_def)
next
  case False
  show ?thesis
  proof (cases "build_payload ot (item_name it) it")
    case (Raised e)
    with False assms show ?thesis by (simp add: push_item_raised post_free_def)
  next
    case Unknown
    with False assms show ?thesis by (simp add: push_item_unknown post_free_def)
  next
    case (Built pl skips)
    have c: "post_free ex [upsert_call ep (item_name it) pl ex]"
      using payload_name[OF Built]
      by (auto simp: post_free_def upsert_call_def is_get_def creates_def)
    from assms show ?thesis
      unfolding push_item_built[OF False Built]
      using c by (auto split: sum.splits prod.splits if_splits)
  qed
qed

lemma post_free_mono: "ex \<subseteq> ex' \<Longrightarrow> post_free ex' new \<Longrightarrow> post_free ex new"
  by (auto simp: post_free_def)

lemma post_free_append: "post_free ex (a @ b) \<longleftrightarrow> post_free ex a \<and> post_free ex b"
  by (auto simp: post_free_def)

lemma fold_push_calls:
  "fold (push_item srv ot ep) items (ex, res, log) = (ex', res', log') \<Longrightarrow>
     ex \<subseteq> ex' \<and> (\<exists>new. log' = log @ new \<and> post_free ex new)"
proof (induction items arbitrary: ex res log)
  case Nil
  then show ?case by (simp add: post_free_def)
next
  case (Cons it items)
  obtain ex1 res1 log1 where s: "push_item srv ot ep it (ex, res, log) = (ex1, res1, log1)"
    by (cases "push_item srv ot ep it (ex, res, log)") auto
  from push_item_calls[OF s] obtain n1 where
    a: "ex \<subseteq> ex1" "log1 = log @ n1" "post_free ex n1" by blast
  from Cons.prems have "fold (push_item srv ot ep) items (ex1, res1, log1) = (ex', res', log')"
    by (simp add: s)
  from Cons.IH[OF this] obtain n2 where
    b: "ex1 \<subseteq> ex'" "log' = log1 @ n2" "post_free ex1 n2" by blast
  from a b have "log' = log @ (n1 @ n2)" by simp
  moreover from a b have "post_free ex (n1 @ n2)"
    by (simp add: post_free_append post_free_mono[OF a(1)])
  moreover from a b have "ex \<subseteq> ex'" by blast
  ultimately show ?case by blast
qed

lemma push_item_built_log:
  assumes "item_name it \<noteq> []" and "build_payload ot (item_name it) it = Built pl skips"
  shows "snd (snd (push_item srv ot ep it (ex, res, log))) = log @ [upsert_call ep (item_name it) pl ex]"
  by (simp add: push_item_built[OF assms] split: sum.splits prod.splits)

lemma fg_push_fetch_once:
  assumes "EP ot = Some ep"
  shows "filter is_get (drop (length log0) (snd (fg_push srv True ot items log0))) = [GetExisting ep]"
proof (cases "names_reply srv log0 ep")
  case (Inl e)
  with assms show ?thesis by (simp add: fg_push_def get_existing_def is_get_def)
next
  case (Inr E)
  obtain ex' res' log' where
    f: "fold (push_item srv ot ep) items (E, [], log0 @ [GetExisting ep]) = (ex', res', log')"
    by (cases "fold (push_item srv ot ep) items (E, [], log0 @ [GetExisting ep])") auto
  from fold_push_calls[OF f] obtain new where
    n: "log' = (log0 @ [GetExisting ep]) @ new" "post_free E new" by blast
  from n(2) have "filter is_get new = []" by (auto simp: post_free_def filter_empty_conv)
  with assms Inr f n(1) show ?thesis
    by (simp add: fg_push_def get_existing_def is_get_def)
qed

lemma EP_keys:
  assumes "EP ot = Some ep"
  shows "ot = ''hosts'' \<or> ot = ''networks'' \<or> ot = ''addr_ranges'' \<or> ot = ''net_groups''
         \<or> ot = ''services'' \<or> ot = ''service_groups''"
proof (rule ccontr)
  assume "\<not> ?thesis"
  then have "EP ot = None" by (simp add: EP_def)
  with assms show False by simp
qed

lemma address_payload_built:
  assumes "(type_f it = Some ''ipmask'' \<longrightarrow> subnet it \<noteq> None)"
    and "(type_f it = Some ''iprange'' \<longrightarrow> start_ip it \<noteq> None \<and> end_ip it \<noteq> None)"
    and ot: "ot \<in> {''hosts'', ''networks'', ''addr_ranges''}"
  shows "\<exists>pl skips. build_payload ot nm it = Built pl skips"
proof (cases "type_f it = Some ''ipmask''")
  case True
  with assms(1) obtain s where "subnet it = Some s" by auto
  with True ot show ?thesis by (simp add: build_payload_def Let_def)
next
  case False
  show ?thesis
  proof (cases "type_f it = Some ''iprange''")
    case True
    with assms(2) obtain a b where "start_ip it = Some a" "end_ip it = Some b" by auto
    with True False ot show ?thesis by (simp add: build_payload_def Let_def)
  next
    case r: False
    with False ot show ?thesis by (simp add: build_payload_def Let_def)
  qed
qed

lemma carries_fields_built:
  assumes cf: "carries_fields ot it" and ep: "EP ot = Some ep"
  shows "\<exists>pl skips. build_payload ot nm it = Built pl skips"
proof -
  from EP_keys[OF ep] consider
    (addr0) "ot = ''hosts'' \<or> ot = ''networks'' \<or> ot = ''addr_ranges''"
    | (ng) "ot = ''net_groups''" | (sv) "ot = ''services''" | (sg) "ot = ''service_groups''"
    by (elim disjE) simp_all
  then show ?thesis
  proof cases
    case addr0
    then have addr: "ot \<in> {''hosts'', ''networks'', ''addr_ranges''}" by simp
    with cf have "(type_f it = Some ''ipmask'' \<longrightarrow> subnet it \<noteq> None)"
      "(type_f it = Some ''iprange'' \<longrightarrow> start_ip it \<noteq> None \<and> end_ip it \<noteq> None)"
      by (simp_all add: carries_fields_def)
    then show ?thesis using addr by (rule address_payload_built)
  next
    case ng
    then show ?thesis by (simp add: build_payload_def)
  next
    case sv
    with cf obtain p where "protocol it = Some p" by (auto simp: carries_fields_def)
    with sv show ?thesis by (simp add: build_payload_def Let_def)
  next
    case sg
    then show ?thesis by (simp add: build_payload_def)
  qed
qed

lemma fold_all:
  assumes "\<And>x acc. \<forall>r\<in>set acc. Q r \<Longrightarrow> \<forall>r\<in>set (f x acc). Q r"
    and "\<forall>r\<in>set acc. Q r"
  shows "\<forall>r\<in>set (fold f xs acc). Q r"
  by (rule fold_invariant[where P = "\<lambda>acc. \<forall>r\<in>set acc. Q r"]) (use assms in blast)+

lemma hosts_fields:
  "\<forall>r\<in>set (fold (host_step nm) els []). type_f r = Some ''ipmask'' \<and> subnet r \<noteq> None"
  by (rule fold_all) (auto simp: host_step_def Let_def no_keys_def split: option.splits)

lemma networks_fields:
  "\<forall>r\<in>set (fold (network_step ipv4 nm) els []). type_f r = Some ''ipmask'' \<and> subnet r \<noteq> None"
  by (rule fold_all) (auto simp: network_step_def Let_def no_keys_def split: option.splits)

lemma ranges_fields:
  "\<forall>r\<in>set (fold (range_step nm) els []).
      type_f r = Some ''iprange'' \<and> start_ip r \<noteq> None \<and> end_ip r \<noteq> None"
  by (rule fold_all) (auto simp: range_step_def Let_def no_keys_def)

lemma tcp_fields: "\<forall>r\<in>set (fold (service_tcp_step nm) els []). protocol r \<noteq> None"
  by (rule fold_all) (auto simp: service_tcp_step_def Let_def no_keys_def)

lemma udp_fields:
  "\<forall>r\<in>set acc. protocol r \<noteq> None \<Longrightarrow> \<forall>r\<in>set (fold (service_udp_step nm) els acc). protocol r \<noteq> None"
  by (rule fold_all) (auto simp: service_udp_step_def Let_def no_keys_def)

lemma extracted_carry_fields:
  assumes "r \<in> set (category ot (extract_objects ipv4 root))"
  shows "carries_fields ot r"
proof -
  let ?x = "extract_objects ipv4 root"
  have h: "\<forall>r\<in>set (hosts ?x). type_f r = Some ''ipmask'' \<and> subnet r \<noteq> None"
    by (simp add: extract_objects_def Let_def hosts_fields)
  have n: "\<forall>r\<in>set (networks ?x). type_f r = Some ''ipmask'' \<and> subnet r \<noteq> None"
    by (simp add: extract_objects_def Let_def networks_fields)
  have a: "\<forall>r\<in>set (addr_ranges ?x).
      type_f r = Some ''iprange'' \<and> start_ip r \<noteq> None \<and> end_ip r \<noteq> None"
    by (simp add: extract_objects_def Let_def ranges_fields)
  have s: "\<forall>r\<in>set (services ?x). protocol r \<noteq> None"
    by (simp add: extract_objects_def Let_def udp_fields[OF tcp_fields])
  show ?thesis
  proof (cases "ot = ''hosts''")
    case True
    with assms have "r \<in> set (hosts ?x)" by (simp add: category_def)
    with h True show ?thesis by (simp add: carries_fields_def)
  next
    case nh: False
    show ?thesis
    proof (cases "ot = ''networks''")
      case True
      with assms have "r \<in> set (networks ?x)" by (simp add: category_def)
      with n True show ?thesis by (simp add: carries_fields_def)
    next
      case nn: False
      show ?thesis
      proof (cases "ot = ''addr_ranges''")
        case True
        with assms have "r \<in> set (addr_ranges ?x)" by (simp add: category_def)
        with a True show ?thesis by (simp add: carries_fields_def)
      next
        case na: False
        show ?thesis
        proof (cases "ot = ''services''")
          case True
          with assms have "r \<in> set (services ?x)" by (simp add: category_def)
          with s True show ?thesis by (simp add: carries_fields_def)
        next
          case False
          with nh nn na show ?thesis by (simp add: carries_fields_def)
        qed
      qed
    qed
  qed
qed

section \<open>Example records of the push\<close>

lemma ok_outcome_name:
  assumes a: "push_item srv ot ep a (ex, res, log) = (ex1, res1, log1)"
    and ok: "status (last res1) = ''ok''"
  shows "item_name a \<noteq> [] \<and> item_name a \<in> ex1"
proof (cases "item_name a = []")
  case True
  with a ok show ?thesis by (auto simp: push_item_empty)
next
  case False
  show ?thesis
  proof (cases "build_payload ot (item_name a) a")
    case (Raised e)
    with False a ok show ?thesis by (auto simp: push_item_raised)
  next
    case Unknown
    with False a ok show ?thesis by (auto simp: push_item_unknown)
  next
    case (Built pl skips)
    from a ok False show ?thesis
      unfolding push_item_built[OF False Built]
      by (auto split: sum.splits prod.splits if_splits)
  qed
qed

lemma EP_hosts: "EP ''hosts'' = Some ''firewall/address''"
  by (simp add: EP_def)

lemma item_name_host:
  "item_name (host_item ''WebSrv'' ''WebSrv'') = ''WebSrv''"
  "item_name (host_item ''New'' ''New'') = ''New''"
  "item_name (host_item ''Web Srv'' ''Web_Srv'') = ''Web_Srv''"
  "item_name (host_item ''Web/Srv'' ''Web_Srv'') = ''Web_Srv''"
  "item_name no_keys = []"
  "item_name broken_item = ''x''"
  by (simp_all add: item_name_def host_item_def no_keys_def broken_item_def strip_eval)

lemma item_orig_host: "item_orig (host_item orig nm) = orig" "item_orig broken_item = ''x''"
proof -
  show "item_orig (host_item orig nm) = orig"
    by (simp add: item_orig_def host_item_def no_keys_def)
  have "orig_name broken_item = None" by (simp add: broken_item_def no_keys_def)
  then show "item_orig broken_item = ''x''" by (simp add: item_orig_def item_name_host)
qed

lemma build_host: "build_payload ''hosts'' nm (host_item orig nm') = Built (host_payload nm) []"
  by (simp add: build_payload_def host_item_def no_keys_def host_payload_def)



section \<open>Columns of grouped children\<close>












































section \<open>Records and their elements\<close>

lemma fold_map_filter:
  assumes "\<And>el acc. el \<in> set els \<Longrightarrow> F (f el acc) = (if P el then F acc @ [h el] else F acc)"
  shows "F (fold f els acc) = F acc @ map h (filter P els)"
  using assms
proof (induction els arbitrary: acc)
  case Nil
  show ?case by simp
next
  case (Cons el els)
  have "F (fold f els (f el acc)) = F (f el acc) @ map h (filter P els)"
    by (rule Cons.IH) (simp add: Cons.prems)
  moreover have "F (f el acc) = (if P el then F acc @ [h el] else F acc)"
    by (rule Cons.prems) simp
  ultimately show ?case by simp
qed














section \<open>The emitted services\<close>

lemma service_tcp_step_fields:
  "service_fields (service_tcp_step nm el acc) =
     (if service_gate el
      then service_fields acc @ [(Some (orig_of el), Some ''TCP'', Some (port_of el), None)]
      else service_fields acc)"
  by (simp add: service_tcp_step_def service_gate_def service_fields_def orig_of_def port_of_def
        Let_def no_keys_def)

lemma service_udp_step_fields:
  "service_fields (service_udp_step nm el acc) =
     (if service_gate el
      then service_fields acc @ [(Some (orig_of el), Some ''UDP'', None, Some (port_of el))]
      else service_fields acc)"
  by (simp add: service_udp_step_def service_gate_def service_fields_def orig_of_def port_of_def
        Let_def no_keys_def)

lemma services_fields:
  "service_fields (services (extract_objects ipv4 root)) =
     map (\<lambda>el. (Some (orig_of el), Some ''TCP'', Some (port_of el), None))
       (filter service_gate (iter_tag root ''service_tcp'')) @
     map (\<lambda>el. (Some (orig_of el), Some ''UDP'', None, Some (port_of el)))
       (filter service_gate (iter_tag root ''service_udp''))"
proof -
  let ?nm = "snd (build_registry root)"
  have e: "service_fields [] = []" by (simp add: service_fields_def)
  have t: "service_fields (fold (service_tcp_step ?nm) (iter_tag root ''service_tcp'') []) =
      service_fields [] @ map (\<lambda>el. (Some (orig_of el), Some ''TCP'', Some (port_of el), None))
       (filter service_gate (iter_tag root ''service_tcp''))"
    by (rule fold_map_filter) (rule service_tcp_step_fields)
  have u: "service_fields (fold (service_udp_step ?nm) (iter_tag root ''service_udp'')
             (fold (service_tcp_step ?nm) (iter_tag root ''service_tcp'') [])) =
      service_fields (fold (service_tcp_step ?nm) (iter_tag root ''service_tcp'') []) @
      map (\<lambda>el. (Some (orig_of el), Some ''UDP'', None, Some (port_of el)))
       (filter service_gate (iter_tag root ''service_udp''))"
    by (rule fold_map_filter) (rule service_udp_step_fields)
  show ?thesis
    unfolding extract_objects_def Let_def by (simp add: u t e)
qed

lemma port_of_min_only:
  assumes "map_of (attrib el) ''min_dst_port'' = Some m"
    and "map_of (attrib el) ''max_dst_port'' = None"
  shows "service_gate el = (strip m \<noteq> [])" and "port_of el = strip m"
  using assms
  by (simp_all add: service_gate_def port_of_def attrib_get_def strip_idem port_range_def)

text \<open>
  C10. The services of an extraction are, in order, one record for every
  \<open>service_tcp\<close> element and then for every \<open>service_udp\<close> element whose trimmed
  minimum destination port is not empty, with the element's port range under the key of
  its protocol. For an element that has a minimum destination port attribute and no
  maximum destination port attribute, the maximum defaults to the trimmed minimum and the
  port range is the trimmed minimum port alone; so such an element with a non-empty
  trimmed minimum has, among the emitted services, its record with exactly that port.
\<close>

theorem service_port_defaults_to_min:
  "service_fields (services (extract_objects ipv4 root)) =
     map (\<lambda>el. (Some (orig_of el), Some ''TCP'', Some (port_of el), None))
       (filter service_gate (iter_tag root ''service_tcp'')) @
     map (\<lambda>el. (Some (orig_of el), Some ''UDP'', None, Some (port_of el)))
       (filter service_gate (iter_tag root ''service_udp''))
   \<and> (map_of (attrib el) ''min_dst_port'' = Some m \<and> map_of (attrib el) ''max_dst_port'' = None
        \<longrightarrow> service_gate el = (strip m \<noteq> [])
          \<and> strip (attrib_get el ''max_dst_port'' (strip m)) = strip m
          \<and> port_of el = strip m)
   \<and> (el \<in> set (iter_tag root ''service_tcp'') \<and> map_of (attrib el) ''min_dst_port'' = Some m
        \<and> map_of (attrib el) ''max_dst_port'' = None \<and> strip m \<noteq> []
        \<longrightarrow> (Some (orig_of el), Some ''TCP'', Some (strip m), None)
              \<in> set (service_fields (services (extract_objects ipv4 root))))
   \<and> (el \<in> set (iter_tag root ''service_udp'') \<and> map_of (attrib el) ''min_dst_port'' = Some m
        \<and> map_of (attrib el) ''max_dst_port'' = None \<and> strip m \<noteq> []
        \<longrightarrow> (Some (orig_of el), Some ''UDP'', None, Some (strip m))
              \<in> set (service_fields (services (extract_objects ipv4 root))))"
proof (intro conjI impI)
  show "service_fields (services (extract_objects ipv4 root)) =
     map (\<lambda>el. (Some (orig_of el), Some ''TCP'', Some (port_of el), None))
       (filter service_gate (iter_tag root ''service_tcp'')) @
     map (\<lambda>el. (Some (orig_of el), Some ''UDP'', None, Some (port_of el)))
       (filter service_gate (iter_tag root ''service_udp''))"
    by (rule services_fields)
next
  assume a: "map_of (attrib el) ''min_dst_port'' = Some m \<and> map_of (attrib el) ''max_dst_port'' = None"
  then show "service_gate el = (strip m \<noteq> [])" by (simp add: port_of_min_only)
  from a show "port_of el = strip m" by (simp add: port_of_min_only)
  from a show "strip (attrib_get el ''max_dst_port'' (strip m)) = strip m"
    by (simp add: attrib_get_def strip_idem)
next
  assume a: "el \<in> set (iter_tag root ''service_tcp'') \<and> map_of (attrib el) ''min_dst_port'' = Some m
        \<and> map_of (attrib el) ''max_dst_port'' = None \<and> strip m \<noteq> []"
  then have "service_gate el" "port_of el = strip m" by (simp_all add: port_of_min_only)
  with a have "(Some (orig_of el), Some ''TCP'', Some (strip m), None)
      \<in> (\<lambda>el. (Some (orig_of el), Some ''TCP'', Some (port_of el), None))
          ` set (filter service_gate (iter_tag root ''service_tcp''))"
    by (intro image_eqI[where x = el]) simp_all
  then show "(Some (orig_of el), Some ''TCP'', Some (strip m), None)
              \<in> set (service_fields (services (extract_objects ipv4 root)))"
    unfolding services_fields set_append set_map by (rule UnI1)
next
  assume a: "el \<in> set (iter_tag root ''service_udp'') \<and> map_of (attrib el) ''min_dst_port'' = Some m
        \<and> map_of (attrib el) ''max_dst_port'' = None \<and> strip m \<noteq> []"
  then have "service_gate el" "port_of el = strip m" by (simp_all add: port_of_min_only)
  with a have "(Some (orig_of el), Some ''UDP'', None, Some (strip m))
      \<in> (\<lambda>el. (Some (orig_of el), Some ''UDP'', None, Some (port_of el)))
          ` set (filter service_gate (iter_tag root ''service_udp''))"
    by (intro image_eqI[where x = el]) simp_all
  then show "(Some (orig_of el), Some ''UDP'', None, Some (strip m))
              \<in> set (service_fields (services (extract_objects ipv4 root)))"
    unfolding services_fields set_append set_map by (rule UnI2)
qed

lemma http_alt_facts:
  "map_of (attrib http_alt) ''min_dst_port'' = Some ''8080''"
  "map_of (attrib http_alt) ''max_dst_port'' = None"
  "strip ''8080'' = ''8080''"
  "orig_of http_alt = ''HTTP-alt''"
  "iter_tag services_doc ''service_tcp'' = [http_alt]"
  "iter_tag services_doc ''service_udp'' = []"
  by (simp_all add: http_alt_def services_doc_def iter_tag_def orig_of_def attrib_get_def strip_eval)

theorem service_port_defaults_to_min_witness:
  "http_alt \<in> set (iter_tag services_doc ''service_tcp'')
   \<and> map_of (attrib http_alt) ''min_dst_port'' = Some ''8080''
   \<and> map_of (attrib http_alt) ''max_dst_port'' = None
   \<and> strip ''8080'' \<noteq> []
   \<and> service_fields (services (extract_objects no_networks services_doc)) =
       [(Some ''HTTP-alt'', Some ''TCP'', Some ''8080'', None)]"
proof -
  from service_port_defaults_to_min[of no_networks services_doc http_alt "''8080''"]
  have l: "service_fields (services (extract_objects no_networks services_doc)) =
     map (\<lambda>el. (Some (orig_of el), Some ''TCP'', Some (port_of el), None))
       (filter service_gate (iter_tag services_doc ''service_tcp'')) @
     map (\<lambda>el. (Some (orig_of el), Some ''UDP'', None, Some (port_of el)))
       (filter service_gate (iter_tag services_doc ''service_udp''))"
    and p: "service_gate http_alt = (strip ''8080'' \<noteq> [])" "port_of http_alt = strip ''8080''"
    by (simp_all add: http_alt_facts(1,2))
  from l p show ?thesis by (simp add: http_alt_facts)
qed

section \<open>Runs of the push\<close>

lemma fg_push_run:
  assumes "EP ot = Some ep" and "names_reply srv log0 ep = Inr E"
  shows "fg_push srv True ot items log0 =
     (Results (fst (snd (fold (push_item srv ot ep) items (E, [], log0 @ [GetExisting ep])))),
      snd (snd (fold (push_item srv ot ep) items (E, [], log0 @ [GetExisting ep]))))"
  using assms by (simp add: fg_push_def get_existing_def split: prod.splits)

lemma built_skips:
  "build_payload ot nm it = Built pl skips \<Longrightarrow> \<forall>oc\<in>set skips. status oc = ''skip''"
  by (auto simp: build_payload_def skipped_outcomes_def Let_def split: if_splits option.splits)

lemma ok_names_append: "ok_names (a @ b) = ok_names a \<union> ok_names b"
  by (auto simp: ok_names_def)

lemma ok_names_skips: "\<forall>oc\<in>set skips. status oc = ''skip'' \<Longrightarrow> ok_names skips = {}"
  by (auto simp: ok_names_def)

lemma own_outcome_ok_names:
  "ok_names [own_outcome srv log c it] =
     (if status (own_outcome srv log c it) = ''ok'' then {item_name it} else {})"
  by (auto simp: ok_names_def own_outcome_def split: sum.splits prod.splits if_splits)

lemma push_item_built':
  assumes "item_name it \<noteq> []" and "build_payload ot (item_name it) it = Built pl skips"
  shows "push_item srv ot ep it (ex, res, log) =
     (if status (own_outcome srv log (upsert_call ep (item_name it) pl ex) it) = ''ok''
      then insert (item_name it) ex else ex,
      res @ skips @ [own_outcome srv log (upsert_call ep (item_name it) pl ex) it],
      log @ [upsert_call ep (item_name it) pl ex])"
  unfolding push_item_built[OF assms] own_outcome_def
  by (auto split: sum.splits prod.splits)

lemma push_item_shape:
  "\<exists>out calls.
      push_item srv ot ep it (ex, res, log) = (ex \<union> ok_names out, res @ out, log @ calls)
    \<and> post_free ex calls
    \<and> (item_name it = [] \<longrightarrow>
          out = [Outcome ''skip'' [] [] None (Some EmptyName)] \<and> calls = [])
    \<and> (\<forall>pl skips. item_name it \<noteq> [] \<and> build_payload ot (item_name it) it = Built pl skips \<longrightarrow>
          calls = [upsert_call ep (item_name it) pl ex] \<and>
          out = skips @ [own_outcome srv log (upsert_call ep (item_name it) pl ex) it])
    \<and> (\<forall>exc. item_name it \<noteq> [] \<and> build_payload ot (item_name it) it = Raised exc \<longrightarrow>
          calls = [] \<and>
          out = [Outcome ''err'' (item_name it) (item_orig it) None
                   (Some (ExcText (take 150 (str_exn exc))))])"
proof (cases "item_name it = []")
  case True
  show ?thesis
    by (rule exI[where x = "[Outcome ''skip'' [] [] None (Some EmptyName)]"], rule exI[where x = "[]"])
       (simp add: True push_item_empty ok_names_def post_free_def)
next
  case False
  show ?thesis
  proof (cases "build_payload ot (item_name it) it")
    case (Raised e)
    show ?thesis
      by (rule exI[where x = "[Outcome ''err'' (item_name it) (item_orig it) None
                   (Some (ExcText (take 150 (str_exn e))))]"], rule exI[where x = "[]"])
         (simp add: False Raised push_item_raised ok_names_def post_free_def)
  next
    case Unknown
    show ?thesis
      by (rule exI[where x = "[Outcome ''skip'' (item_name it) (item_orig it) None (Some UnknownType)]"],
          rule exI[where x = "[]"])
         (simp add: False Unknown push_item_unknown ok_names_def post_free_def)
  next
    case (Built pl skips)
    let ?c = "upsert_call ep (item_name it) pl ex"
    let ?o = "own_outcome srv log ?c it"
    have pf: "post_free ex [?c]"
      using payload_name[OF Built]
      by (auto simp: post_free_def upsert_call_def is_get_def creates_def)
    have okn: "ok_names (skips @ [?o]) = (if status ?o = ''ok'' then {item_name it} else {})"
      by (simp add: ok_names_append ok_names_skips[OF built_skips[OF Built]] own_outcome_ok_names)
    have "push_item srv ot ep it (ex, res, log) = (ex \<union> ok_names (skips @ [?o]), res @ skips @ [?o], log @ [?c])"
      unfolding push_item_built'[OF False Built] okn by auto
    with pf show ?thesis
      by (intro exI[where x = "skips @ [?o]"] exI[where x = "[?c]"]) (simp add: False Built)
  qed
qed

lemma fold_push_shape:
  "\<exists>out calls. fold (push_item srv ot ep) items (ex, res, log)
        = (ex \<union> ok_names out, res @ out, log @ calls) \<and> post_free ex calls"
proof (induction items arbitrary: ex res log)
  case Nil
  show ?case
    by (rule exI[where x = "[]"], rule exI[where x = "[]"]) (simp add: ok_names_def post_free_def)
next
  case (Cons it items)
  from push_item_shape[of srv ot ep it ex res log] obtain o1 c1 where
    s: "push_item srv ot ep it (ex, res, log) = (ex \<union> ok_names o1, res @ o1, log @ c1)"
    and p1: "post_free ex c1" by blast
  from Cons.IH[of "ex \<union> ok_names o1" "res @ o1" "log @ c1"] obtain o2 c2 where
    f: "fold (push_item srv ot ep) items (ex \<union> ok_names o1, res @ o1, log @ c1)
          = ((ex \<union> ok_names o1) \<union> ok_names o2, (res @ o1) @ o2, (log @ c1) @ c2)"
    and p2: "post_free (ex \<union> ok_names o1) c2" by blast
  from p2 have "post_free ex c2" by (rule post_free_mono[rotated]) simp
  with p1 have "post_free ex (c1 @ c2)" by (simp add: post_free_append)
  moreover have "fold (push_item srv ot ep) (it # items) (ex, res, log)
     = (ex \<union> ok_names (o1 @ o2), res @ (o1 @ o2), log @ (c1 @ c2))"
    by (simp add: s f ok_names_append Un_assoc)
  ultimately show ?case by blast
qed







lemma accepting_names: "names_reply accepting_server [] ''firewall/address'' = Inr {}"
  by (simp add: accepting_server_def)

lemma accepting_first_run:
  "fg_push accepting_server True ''hosts'' ([] @ [host_item ''Web Srv'' ''Web_Srv'']) [] =
     (Results [Outcome ''ok'' ''Web_Srv'' ''Web Srv'' (Some 200) None],
      [GetExisting ''firewall/address'', Post ''firewall/address'' (host_payload ''Web_Srv'')])"
proof -
  have ne: "item_name (host_item ''Web Srv'' ''Web_Srv'') \<noteq> []" by (simp add: item_name_host)
  have bp: "build_payload ''hosts'' (item_name (host_item ''Web Srv'' ''Web_Srv''))
              (host_item ''Web Srv'' ''Web_Srv'') = Built (host_payload ''Web_Srv'') []"
    by (simp add: item_name_host build_host)
  have rp: "status_reply accepting_server l c = Inr (200, ''done'')" for l c
    by (simp add: accepting_server_def)
  show ?thesis
    by (simp add: fg_push_run[OF EP_hosts accepting_names] push_item_built[OF ne bp]
          item_name_host item_orig_host upsert_call_def rp)
qed

lemma carries_host: "carries_fields ''hosts'' (host_item orig nm)"
  by (simp add: carries_fields_def host_item_def no_keys_def)

text \<open>
  C9. Take a push of one category on a connected client whose fetch succeeds, and a record
  of it whose outcome is ok. Then its canonical name is in the set of existing names (the
  fetched names and the names of the ok outcomes so far). Whatever records follow in the
  same run, the run continues the outcomes and calls made so far, and none of the calls
  that follow creates an object of that name. For every later record with the same
  canonical name that carries the keys of its category (as every record the extractor
  emits does), the call the run makes for it is an update of that name.
\<close>

theorem no_second_create:
  assumes ep: "EP ot = Some ep" and E: "names_reply srv log0 ep = Inr E"
    and run1: "fg_push srv True ot (earlier @ [a]) log0 = (Results res1, log1)"
    and ok: "status (last res1) = ''ok''"
  shows "item_name a \<in> E \<union> ok_names res1
    \<and> (\<exists>res_rest calls_rest.
          fg_push srv True ot (earlier @ a # rest) log0 = (Results (res1 @ res_rest), log1 @ calls_rest)
          \<and> (\<forall>c\<in>set calls_rest. \<not> creates (item_name a) c))
    \<and> (rest = mid @ b # tail \<and> item_name b = item_name a \<and> carries_fields ot b \<longrightarrow>
          (\<exists>pl skips res_b log_b.
              build_payload ot (item_name b) b = Built pl skips
            \<and> fg_push srv True ot (earlier @ a # mid @ [b]) log0 = (Results res_b, log_b)
            \<and> last log_b = Put ep (item_name a) pl))
    \<and> (r \<in> set (category ot (extract_objects ipv4 root)) \<longrightarrow> carries_fields ot r)"
proof -
  let ?f = "push_item srv ot ep"
  let ?s0 = "(E, [], log0 @ [GetExisting ep])"
  let ?n = "item_name a"
  from fold_push_shape[of srv ot ep earlier E "[]" "log0 @ [GetExisting ep]"] obtain oP cP where
    fp: "fold ?f earlier ?s0 = (E \<union> ok_names oP, oP, log0 @ GetExisting ep # cP)"
    by auto
  obtain ex1 where s1: "?f a (E \<union> ok_names oP, oP, log0 @ GetExisting ep # cP) = (ex1, res1, log1)"
    using run1 by (cases "?f a (E \<union> ok_names oP, oP, log0 @ GetExisting ep # cP)")
                  (simp add: fg_push_run[OF ep E] fp)
  from ok_outcome_name[OF s1 ok] have ne: "?n \<noteq> []" and in1: "?n \<in> ex1" by simp_all
  from push_item_shape[of srv ot ep a "E \<union> ok_names oP" oP "log0 @ GetExisting ep # cP"] s1
  obtain out where ex1: "ex1 = (E \<union> ok_names oP) \<union> ok_names out" and r1: "res1 = oP @ out"
    by auto
  from ex1 r1 in1 have c1: "?n \<in> E \<union> ok_names res1" by (simp add: ok_names_append Un_assoc)
  have pre_a: "fold ?f (earlier @ [a]) ?s0 = (ex1, res1, log1)" by (simp add: fp s1)
  have c2: "\<exists>res_rest calls_rest.
          fg_push srv True ot (earlier @ a # rest) log0 = (Results (res1 @ res_rest), log1 @ calls_rest)
          \<and> (\<forall>c\<in>set calls_rest. \<not> creates ?n c)"
  proof -
    from fold_push_shape[of srv ot ep rest ex1 res1 log1] obtain oR cR where
      fr: "fold ?f rest (ex1, res1, log1) = (ex1 \<union> ok_names oR, res1 @ oR, log1 @ cR)"
      and pf: "post_free ex1 cR" by blast
    have "fg_push srv True ot (earlier @ a # rest) log0 = (Results (res1 @ oR), log1 @ cR)"
      by (simp add: fg_push_run[OF ep E] fp s1 fr)
    moreover from pf in1 have "\<forall>c\<in>set cR. \<not> creates ?n c" by (auto simp: post_free_def)
    ultimately show ?thesis by blast
  qed
  have c3: "\<exists>pl skips res_b log_b.
              build_payload ot (item_name b) b = Built pl skips
            \<and> fg_push srv True ot (earlier @ a # mid @ [b]) log0 = (Results res_b, log_b)
            \<and> last log_b = Put ep ?n pl"
    if nb: "item_name b = ?n" and cf: "carries_fields ot b"
  proof -
    from carries_fields_built[OF cf ep, of "item_name b"] obtain pl skips where
      bp: "build_payload ot (item_name b) b = Built pl skips" by blast
    from fold_push_shape[of srv ot ep mid ex1 res1 log1] obtain oM cM where
      fm: "fold ?f mid (ex1, res1, log1) = (ex1 \<union> ok_names oM, res1 @ oM, log1 @ cM)" by blast
    from nb ne have nbe: "item_name b \<noteq> []" by simp
    from in1 nb have inm: "item_name b \<in> ex1 \<union> ok_names oM" by simp
    obtain exb resb logb where
      sb: "?f b (ex1 \<union> ok_names oM, res1 @ oM, log1 @ cM) = (exb, resb, logb)"
      by (cases "?f b (ex1 \<union> ok_names oM, res1 @ oM, log1 @ cM)") auto
    from push_item_built_log[OF nbe bp, of srv ep "ex1 \<union> ok_names oM" "res1 @ oM" "log1 @ cM"] sb inm nb
    have "logb = (log1 @ cM) @ [Put ep ?n pl]" by (simp add: upsert_call_def)
    then have l: "last logb = Put ep ?n pl" by simp
    have "fg_push srv True ot (earlier @ a # mid @ [b]) log0 = (Results resb, logb)"
      by (simp add: fg_push_run[OF ep E] fp s1 fm sb)
    with bp l show ?thesis by blast
  qed
  have c4: "r \<in> set (category ot (extract_objects ipv4 root)) \<longrightarrow> carries_fields ot r"
    using extracted_carry_fields by blast
  from c1 c2 c3 c4 show ?thesis by blast
qed

theorem no_second_create_witness:
  "EP ''hosts'' = Some ''firewall/address''
   \<and> names_reply accepting_server [] ''firewall/address'' = Inr {}
   \<and> fg_push accepting_server True ''hosts'' [host_item ''Web Srv'' ''Web_Srv''] [] =
       (Results [Outcome ''ok'' ''Web_Srv'' ''Web Srv'' (Some 200) None],
        [GetExisting ''firewall/address'', Post ''firewall/address'' (host_payload ''Web_Srv'')])
   \<and> status (last [Outcome ''ok'' ''Web_Srv'' ''Web Srv'' (Some 200) None]) = ''ok''
   \<and> item_name (host_item ''Web/Srv'' ''Web_Srv'') = item_name (host_item ''Web Srv'' ''Web_Srv'')
   \<and> carries_fields ''hosts'' (host_item ''Web/Srv'' ''Web_Srv'')
   \<and> ''Web_Srv'' \<in> ok_names [Outcome ''ok'' ''Web_Srv'' ''Web Srv'' (Some 200) None]
   \<and> last (snd (fg_push accepting_server True ''hosts''
         [host_item ''Web Srv'' ''Web_Srv'', host_item ''Web/Srv'' ''Web_Srv''] []))
       = Put ''firewall/address'' ''Web_Srv'' (host_payload ''Web_Srv'')"
proof -
  let ?a = "host_item ''Web Srv'' ''Web_Srv''"
  let ?b = "host_item ''Web/Srv'' ''Web_Srv''"
  have h4: "status (last [Outcome ''ok'' ''Web_Srv'' ''Web Srv'' (Some 200) None]) = ''ok''"
    by simp
  have nb: "item_name ?b = item_name ?a" by (simp add: item_name_host)
  note T = no_second_create[OF EP_hosts accepting_names accepting_first_run h4,
             where rest = "[?b]" and mid = "[]" and b = ?b and tail = "[]"]
  from T have t1: "item_name ?a \<in> {} \<union> ok_names [Outcome ''ok'' ''Web_Srv'' ''Web Srv'' (Some 200) None]"
    by (rule conjunct1)
  from T have "[?b] = [] @ ?b # [] \<and> item_name ?b = item_name ?a \<and> carries_fields ''hosts'' ?b \<longrightarrow>
          (\<exists>pl skips res_b log_b.
              build_payload ''hosts'' (item_name ?b) ?b = Built pl skips
            \<and> fg_push accepting_server True ''hosts'' ([] @ ?a # [] @ [?b]) [] = (Results res_b, log_b)
            \<and> last log_b = Put ''firewall/address'' (item_name ?a) pl)"
    by (rule conjunct2[THEN conjunct2, THEN conjunct1])
  with nb carries_host obtain pl skips res_b log_b where
      "build_payload ''hosts'' (item_name ?b) ?b = Built pl skips"
      "fg_push accepting_server True ''hosts'' ([] @ ?a # [] @ [?b]) [] = (Results res_b, log_b)"
      "last log_b = Put ''firewall/address'' (item_name ?a) pl"
    by auto
  then have t3: "last (snd (fg_push accepting_server True ''hosts'' [?a, ?b] []))
       = Put ''firewall/address'' ''Web_Srv'' (host_payload ''Web_Srv'')"
    by (simp add: item_name_host build_host)
  from t1 have t1': "''Web_Srv'' \<in> ok_names [Outcome ''ok'' ''Web_Srv'' ''Web Srv'' (Some 200) None]"
    by (simp add: item_name_host)
  from accepting_first_run have r1: "fg_push accepting_server True ''hosts'' [?a] [] =
       (Results [Outcome ''ok'' ''Web_Srv'' ''Web Srv'' (Some 200) None],
        [GetExisting ''firewall/address'', Post ''firewall/address'' (host_payload ''Web_Srv'')])"
    by simp
  from EP_hosts accepting_names r1 h4 nb carries_host[of "''Web/Srv''" "''Web_Srv''"] t1' t3
  show ?thesis by (intro conjI)
qed

end

